theory Spec2Isabelle
  imports Main "HOL-Library.Sublist"
begin

section \<open>Python string primitives used by both scripts\<close>

text \<open>
  Strings are lists of characters. The scripts only use a handful of built-in string
  operations; each is written out here with Python's behaviour at the edges (a missing
  substring gives index \<open>-1\<close>, a negative slice bound counts from the end, a slice
  whose bounds cross is empty).
\<close>

text \<open>\<open>s.startswith(p)\<close>\<close>

definition startswith :: "string \<Rightarrow> string \<Rightarrow> bool" where
  "startswith s p = (take (length p) s = p)"

text \<open>\<open>s.find(sub)\<close>: the lowest index at which \<open>sub\<close> occurs in \<open>s\<close>, or \<open>-1\<close>.\<close>

fun str_find :: "string \<Rightarrow> string \<Rightarrow> int" where
  "str_find [] sub = (if sub = [] then 0 else - 1)"
| "str_find (c # cs) sub =
     (if startswith (c # cs) sub then 0
      else (let r = str_find cs sub in if r < 0 then - 1 else r + 1))"

text \<open>A slice bound, clipped as Python clips it: negative bounds count from the end.\<close>

definition slice_bound :: "string \<Rightarrow> int \<Rightarrow> nat" where
  "slice_bound s i =
     (let n = int (length s) in
      if i < 0 then nat (max (n + i) 0) else nat (min i n))"

text \<open>\<open>s[a:b]\<close>\<close>

definition slice :: "string \<Rightarrow> int \<Rightarrow> int \<Rightarrow> string" where
  "slice s a b = take (slice_bound s b - slice_bound s a) (drop (slice_bound s a) s)"

text \<open>\<open>s[a:]\<close>\<close>

definition slice_from :: "string \<Rightarrow> int \<Rightarrow> string" where
  "slice_from s a = drop (slice_bound s a) s"

text \<open>
  \<open>s.replace(old, new)\<close>: every non-overlapping occurrence of \<open>old\<close>, found from the
  left, is replaced. With an empty \<open>old\<close> Python inserts \<open>new\<close> before every
  character and at the end.
\<close>

function replace_nonempty :: "string \<Rightarrow> string \<Rightarrow> string \<Rightarrow> string" where
  "replace_nonempty old new [] = []"
| "replace_nonempty old new (c # cs) =
     (if old \<noteq> [] \<and> startswith (c # cs) old
      then new @ replace_nonempty old new (drop (length old) (c # cs))
      else c # replace_nonempty old new cs)"
  by pat_completeness auto
termination
  by (relation "measure (\<lambda>(old, new, s). length s)") (auto simp: neq_Nil_conv)

definition str_replace :: "string \<Rightarrow> string \<Rightarrow> string \<Rightarrow> string" where
  "str_replace s old new =
     (if old = [] then new @ concat (map (\<lambda>c. c # new) s)
      else replace_nonempty old new s)"

section \<open>check\_events.py\<close>

subsection \<open>Data\<close>

text \<open>
  A metric of a perfspect metrics file: an object with the fields \<open>name\<close> and
  \<open>expression\<close>, and the field \<open>origin\<close> when the reconciliation step has added it
  (\<open>None\<close> when the key is absent).
\<close>

record metric =
  name :: string
  expression :: string
  origin :: "string option"

text \<open>
  The dictionary \<open>used_events\<close> (event to count). A Python dictionary iterates over its
  keys in insertion order, and the order of \<open>missing_events\<close> is that order, so the
  dictionary is an association list: assigning to a present key keeps its place, a new
  key goes to the end.
\<close>

type_synonym counts = "(string \<times> nat) list"

fun dict_get :: "counts \<Rightarrow> string \<Rightarrow> nat \<Rightarrow> nat" where
  "dict_get [] k d = d"
| "dict_get ((k', v) # kvs) k d = (if k' = k then v else dict_get kvs k d)"

fun dict_set :: "counts \<Rightarrow> string \<Rightarrow> nat \<Rightarrow> counts" where
  "dict_set [] k v = [(k, v)]"
| "dict_set ((k', v') # kvs) k v =
     (if k' = k then (k, v) # kvs else (k', v') # dict_set kvs k v)"

definition dict_keys :: "counts \<Rightarrow> string list" where
  "dict_keys d = map fst d"

subsection \<open>Colon truncation\<close>

text \<open>
  The two statements \<open>if x.find(":") > 0: x = x[0:x.find(":")]\<close> occur twice with the
  same text: in \<open>get_event\<close> (lines 17-18) and in the formula scan (lines 41-42).
\<close>

definition colon_truncate :: "string \<Rightarrow> string" where
  "colon_truncate x = (if str_find x '':'' > 0 then slice x 0 (str_find x '':'') else x)"

subsection \<open>get\_event\<close>

text \<open>The result \<open>None\<close> is Python's \<open>None\<close>: a blank line or a comment.\<close>

definition get_event :: "string \<Rightarrow> string option" where
  "get_event line =
     (if line \<noteq> [] \<and> \<not> startswith line ''#'' then
        (if str_find line ''name='' \<ge> 0 then
           (let x = slice_from line (str_find line ''name='' + 5);
                x = slice_from x (str_find x [CHR 0x27] + 1);
                x = slice x 0 (str_find x [CHR 0x27])
            in Some (colon_truncate x))
         else Some (slice line 0 (- 2)))
      else None)"

subsection \<open>The bracket scan of one formula\<close>

text \<open>
  The state of the \<open>while\<close> loop of lines 37-47: the variables it reads and writes.
\<close>

record scan_state =
  formula :: string
  start_bracket :: int
  used_events :: counts
  m_events :: "string list"

text \<open>One pass through the loop body (lines 39-47).\<close>

definition scan_body :: "scan_state \<Rightarrow> scan_state" where
  "scan_body s =
     (let end_bracket = str_find (formula s) '']'';
          event = slice (formula s) (start_bracket s + 1) end_bracket;
          event = colon_truncate event;
          used = (if \<not> startswith event ''const_''
                  then dict_set (used_events s) event (dict_get (used_events s) event 0 + 1)
                  else used_events s);
          rest = slice_from (formula s) (end_bracket + 1)
      in \<lparr>formula = rest, start_bracket = str_find rest ''['',
          used_events = used, m_events = m_events s @ [event]\<rparr>)"

text \<open>
  The loop itself. Nothing in the source bounds the number of passes, so the loop is
  a partial function: \<open>None\<close> means that it never leaves the loop.
\<close>

partial_function (option) scan_loop :: "scan_state \<Rightarrow> scan_state option" where
  "scan_loop s = (if start_bracket s \<ge> 0 then scan_loop (scan_body s) else Some s)"

declare scan_loop.simps [code]

text \<open>
  The body of \<open>for m in metrics\<close> (lines 34-48). \<open>metric_list\<close> maps a metric's name to
  its list of events; the script fills it and never reads it.
\<close>

type_synonym metric_list = "(string \<times> string list) list"

fun metric_list_set :: "metric_list \<Rightarrow> string \<Rightarrow> string list \<Rightarrow> metric_list" where
  "metric_list_set [] k v = [(k, v)]"
| "metric_list_set ((k', v') # kvs) k v =
     (if k' = k then (k, v) # kvs else (k', v') # metric_list_set kvs k v)"

definition scan_metric ::
  "'a metric_scheme \<Rightarrow> counts \<times> metric_list \<Rightarrow> (counts \<times> metric_list) option" where
  "scan_metric m st =
     (case scan_loop \<lparr>formula = expression m,
                      start_bracket = str_find (expression m) ''['',
                      used_events = fst st, m_events = []\<rparr> of
        None \<Rightarrow> None
      | Some s \<Rightarrow> Some (used_events s, metric_list_set (snd st) (name m) (m_events s)))"

fun scan_metrics ::
  "'a metric_scheme list \<Rightarrow> counts \<times> metric_list \<Rightarrow> (counts \<times> metric_list) option" where
  "scan_metrics [] st = Some st"
| "scan_metrics (m # ms) st =
     (case scan_metric m st of None \<Rightarrow> None | Some st' \<Rightarrow> scan_metrics ms st')"

subsection \<open>Reading the events file\<close>

text \<open>
  The events file is the list of its lines, as \<open>for line in f\<close> yields them: each line
  keeps its newline character (the last one has none when the file does not end in one).
\<close>

fun read_events :: "string list \<Rightarrow> string list \<Rightarrow> string list" where
  "read_events [] event_list = event_list"
| "read_events (line # lines) event_list =
     (case get_event line of
        None \<Rightarrow> read_events lines event_list
      | Some event \<Rightarrow>
          (if event \<noteq> [] \<and> count_list event_list event = 0
           then read_events lines (event_list @ [event])
           else read_events lines event_list))"

subsection \<open>The whole check\<close>

text \<open>
  The pair \<open>(missing_events, unused_events)\<close> that lines 57-58 compute and lines 61-62
  print; \<open>None\<close> when the scan of some formula never ends.
\<close>

definition check :: "'a metric_scheme list \<Rightarrow> string list \<Rightarrow> (string list \<times> string list) option" where
  "check metrics lines =
     (case scan_metrics metrics ([], []) of
        None \<Rightarrow> None
      | Some st \<Rightarrow>
          (let event_list = read_events lines [];
               missing_events = filter (\<lambda>x. x \<notin> set event_list) (dict_keys (fst st));
               unused_events = filter (\<lambda>x. x \<notin> set (dict_keys (fst st))) event_list
           in Some (missing_events, unused_events)))"

text \<open>
  The scanning rule as the specification words it: the first \<open>[\<close> is paired with the
  next \<open>]\<close> after it, the candidate token is the text strictly between the two, and the
  scan resumes after that \<open>]\<close>. The result is the pair (candidate, rest); \<open>None\<close> when
  there is no such pair. It is compared with \<open>scan_body\<close> below.
\<close>

definition spec_bracket_step :: "string \<Rightarrow> (string \<times> string) option" where
  "spec_bracket_step f =
     (let after = drop 1 (dropWhile (\<lambda>c. c \<noteq> CHR ''['') f) in
      if CHR ''['' \<in> set f \<and> CHR '']'' \<in> set after
      then Some (takeWhile (\<lambda>c. c \<noteq> CHR '']'') after,
                 drop 1 (dropWhile (\<lambda>c. c \<noteq> CHR '']'') after))
      else None)"

text \<open>
  A loop state from which the scan cannot move on: a \<open>[\<close> is left and no \<open>]\<close> is.
\<close>

definition stuck :: "scan_state \<Rightarrow> bool" where
  "stuck s = (str_find (formula s) '']'' = - 1 \<and> 0 \<le> str_find (formula s) ''[''
              \<and> start_bracket s = str_find (formula s) ''['')"

text \<open>A token keeps a colon only in first position.\<close>

definition colon_only_first :: "string \<Rightarrow> bool" where
  "colon_only_first t = (if CHR '':'' \<in> set t then hd t = CHR '':'' else True)"

text \<open>
  The loop state whenever the loop test is reached: \<open>start_bracket\<close> is the position
  of the first \<open>[\<close> of the current formula (lines 37 and 47).
\<close>

definition scan_at :: "string \<Rightarrow> counts \<Rightarrow> string list \<Rightarrow> scan_state" where
  "scan_at f u m = \<lparr>formula = f, start_bracket = str_find f ''['', used_events = u, m_events = m\<rparr>"

text \<open>What every key of \<open>used_events\<close> satisfies.\<close>

definition key_ok :: "string \<Rightarrow> bool" where
  "key_ok e = (colon_only_first e \<and> \<not> startswith e ''const_'')"

section \<open>perfmon2perfspect.py\<close>

subsection \<open>Data\<close>

text \<open>An element of \<open>Events\<close> or of \<open>Constants\<close>.\<close>

record alias_entry =
  Alias :: string
  Name :: string

record perfmon_metric =
  LegacyName :: string
  Events :: "alias_entry list"
  Constants :: "alias_entry list"
  Formula :: string

text \<open>
  The top-level document. \<open>Metrics\<close> is what \<open>mf.get("Metrics")\<close> returns: \<open>None\<close>
  when the key is absent (or null).
\<close>

record perfmon_doc =
  Metrics :: "perfmon_metric list option"

text \<open>
  \<open>c.isalpha()\<close> for a single character. A character here is a code point below 256,
  and these are the ones Python counts as letters.
\<close>

definition isalpha :: "char \<Rightarrow> bool" where
  "isalpha c =
     (let n = (of_char c :: nat) in
      (65 \<le> n \<and> n \<le> 90) \<or> (97 \<le> n \<and> n \<le> 122) \<or> n = 170 \<or> n = 181 \<or> n = 186 \<or>
      (192 \<le> n \<and> n \<le> 214) \<or> (216 \<le> n \<and> n \<le> 246) \<or> 248 \<le> n)"

text \<open>
  The table \<open>varMap\<close> (lines 11-20). \<open>for v in varMap\<close> visits the keys in the order in
  which the literal lists them.
\<close>

definition varMap :: "(string \<times> string) list" where
  "varMap =
     [(''[INST_RETIRED.ANY]'', ''[instructions]''),
      (''[CPU_CLK_UNHALTED.THREAD]'', ''[cpu-cycles]''),
      (''[CPU_CLK_UNHALTED.REF]'', ''[ref-cycles]''),
      (''[CPU_CLK_UNHALTED.REF_TSC]'', ''[ref-cycles]''),
      (''DURATIONTIMEINSECONDS'', ''1''),
      (''[DURATIONTIMEINMILLISECONDS]'', ''1000''),
      (''[TOPDOWN.SLOTS:perf_metrics]'', ''[TOPDOWN.SLOTS]''),
      (''[OFFCORE_REQUESTS_OUTSTANDING.ALL_DATA_RD:c4]'',
       ''[OFFCORE_REQUESTS_OUTSTANDING.DATA_RD:c4]'')]"

subsection \<open>Rewriting one formula\<close>

text \<open>
  The inner \<open>while\<close> (lines 47-49): from index \<open>k\<close> on, the identifier characters are
  appended to \<open>x\<close>. The result is the pair of \<open>x\<close> and \<open>k\<close> on leaving the loop.
\<close>

function scan_ident :: "string \<Rightarrow> nat \<Rightarrow> string \<Rightarrow> string \<times> nat" where
  "scan_ident fml k x =
     (if k < length fml \<and> (isalpha (fml ! k) \<or> fml ! k = CHR ''_'')
      then scan_ident fml (k + 1) (x @ [fml ! k])
      else (x, k))"
  by pat_completeness auto
termination
  by (relation "measure (\<lambda>(fml, k, x). length fml - k)") auto

declare scan_ident.simps [simp del]

lemma scan_ident_index: "k \<le> snd (scan_ident fml k x)"
proof (induction fml k x rule: scan_ident.induct)
  case (1 fml k x)
  show ?case
  proof (cases "k < length fml \<and> (isalpha (fml ! k) \<or> fml ! k = CHR ''_'')")
    case True
    with 1 have "k + 1 \<le> snd (scan_ident fml (k + 1) (x @ [fml ! k]))" by blast
    moreover from True have "scan_ident fml k x = scan_ident fml (k + 1) (x @ [fml ! k])"
      by (subst scan_ident.simps) simp
    ultimately show ?thesis by simp
  next
    case False
    then have "scan_ident fml k x = (x, k)"
      by (subst scan_ident.simps) (simp only: if_False)
    then show ?thesis by simp
  qed
qed

text \<open>
  The outer \<open>while\<close> (lines 43-57), with the dictionary \<open>vars\<close> as a map. The indices
  \<open>i\<close> and \<open>k\<close> start at 0 and only grow, so they are natural numbers; \<open>fml\<close> is
  the source's variable \<open>formula\<close>.
\<close>

function rewrite_loop :: "(string \<rightharpoonup> string) \<Rightarrow> string \<Rightarrow> nat \<Rightarrow> string \<Rightarrow> string" where
  "rewrite_loop vars fml i newFormula =
     (if i < length fml then
        (if isalpha (fml ! i) \<or> fml ! i = CHR ''_'' then
           (case scan_ident fml (i + 1) [fml ! i] of
              (x, k) \<Rightarrow>
                (case vars x of
                   Some resolved \<Rightarrow>
                     rewrite_loop vars fml k (newFormula @ ''['' @ resolved @ '']'')
                 | None \<Rightarrow>
                     rewrite_loop vars fml k (newFormula @ slice fml (int i) (int k))))
         else rewrite_loop vars fml (i + 1) (newFormula @ [fml ! i]))
      else newFormula)"
  by pat_completeness auto
termination
proof (relation "measure (\<lambda>(vars, fml, i, newFormula). length fml - i)")
  show "wf (measure (\<lambda>(vars, fml, i, newFormula). length fml - i))" by simp
next
  fix vars :: "string \<rightharpoonup> string" and fml i newFormula and xa :: "string \<times> nat" and x k resolved
  assume "i < length fml" and "(x, k) = scan_ident fml (i + 1) [fml ! i]"
  then have "i + 1 \<le> k"
    using scan_ident_index [of "i + 1" fml "[fml ! i]"] by (metis snd_conv)
  with \<open>i < length fml\<close>
  show "((vars, fml, k, newFormula @ ''['' @ resolved @ '']''), vars, fml, i, newFormula)
          \<in> measure (\<lambda>(vars, fml, i, newFormula). length fml - i)"
    by simp
next
  fix vars :: "string \<rightharpoonup> string" and fml i newFormula and xa :: "string \<times> nat" and x k
  assume "i < length fml" and "(x, k) = scan_ident fml (i + 1) [fml ! i]"
  then have "i + 1 \<le> k"
    using scan_ident_index [of "i + 1" fml "[fml ! i]"] by (metis snd_conv)
  with \<open>i < length fml\<close>
  show "((vars, fml, k, newFormula @ slice fml (int i) (int k)), vars, fml, i, newFormula)
          \<in> measure (\<lambda>(vars, fml, i, newFormula). length fml - i)"
    by simp
next
  fix vars :: "string \<rightharpoonup> string" and fml i newFormula
  assume "i < length fml"
  then show "((vars, fml, i + 1, newFormula @ [fml ! i]), vars, fml, i, newFormula)
          \<in> measure (\<lambda>(vars, fml, i, newFormula). length fml - i)"
    by simp
qed

declare rewrite_loop.simps [simp del]

subsection \<open>Translating the metrics\<close>

text \<open>
  The body of \<open>for m in mf["Metrics"]\<close> (lines 33-62). The dictionary \<open>vars\<close> is created
  once, before the loop, and every pass starts with \<open>vars.clear()\<close>; the body therefore
  takes the dictionary as the previous pass left it and returns it with the metric.
\<close>

text \<open>\<open>vars.clear()\<close>: whatever the dictionary held, it is empty afterwards.\<close>

definition dict_clear :: "(string \<rightharpoonup> string) \<Rightarrow> (string \<rightharpoonup> string)" where
  "dict_clear d = Map.empty"

definition translate_body :: "(string \<rightharpoonup> string) \<Rightarrow> perfmon_metric \<Rightarrow> (string \<rightharpoonup> string) \<times> metric" where
  "translate_body vars0 m =
     (let vars = dict_clear vars0;
          metricName = LegacyName m;
          vars = fold (\<lambda>e v. v(Alias e \<mapsto> Name e)) (Events m) vars;
          vars = fold (\<lambda>c v. v(Alias c \<mapsto> Name c)) (Constants m) vars;
          newFormula = rewrite_loop vars (Formula m) 0 [];
          newFormula = fold (\<lambda>(v, r) f. str_replace f v r) varMap newFormula
      in (vars, \<lparr>name = metricName, expression = newFormula, origin = None\<rparr>))"

fun translate_loop ::
  "(string \<rightharpoonup> string) \<Rightarrow> perfmon_metric list \<Rightarrow> metric list \<Rightarrow> metric list" where
  "translate_loop vars [] result = result"
| "translate_loop vars (m # ms) result =
     (case translate_body vars m of
        (vars', metric) \<Rightarrow> translate_loop vars' ms (result @ [metric]))"

subsection \<open>The translation with its input and output\<close>

text \<open>
  The files and the standard output are explicit. A file holds the JSON value that
  \<open>json.load\<close> reads from it and \<open>json.dumps\<close> writes to it; the lines that the script
  prints are kept as messages:
  \<^item> \<open>NoMetricsFound inFile\<close> is \<open>ERROR: No metrics were found in {inFile}\<close>,
  \<^item> \<open>MetricsIn inFile n\<close> is \<open>Metrics in {inFile}: {n}\<close>,
  \<^item> \<open>GeneratedMetrics n\<close> is \<open>Generated metrics: {n}\<close>.
  An exception that the script does not catch ends the run with an error: the input
  file does not exist, or it holds a JSON list, on which \<open>mf.get\<close> fails. Writing the
  output file is taken to succeed.
\<close>

datatype message =
  NoMetricsFound string
| MetricsIn string nat
| GeneratedMetrics nat

datatype file_content =
  PerfmonFile perfmon_doc
| MetricsFile "metric list"

datatype error = FileNotFoundError | MalformedInputError

record world =
  files :: "string \<rightharpoonup> file_content"
  printed :: "message list"

definition translate_perfmon_metrics_to_perfspect ::
  "string \<Rightarrow> string \<Rightarrow> world \<Rightarrow> error + world" where
  "translate_perfmon_metrics_to_perfspect inFile outFile w =
     (case files w inFile of
        None \<Rightarrow> Inl FileNotFoundError
      | Some (MetricsFile ms) \<Rightarrow> Inl MalformedInputError
      | Some (PerfmonFile mf) \<Rightarrow>
          (case Metrics mf of
             None \<Rightarrow> Inr (w\<lparr>printed := printed w @ [NoMetricsFound inFile]\<rparr>)
           | Some ms \<Rightarrow>
               (let w = w\<lparr>printed := printed w @ [MetricsIn inFile (length ms)]\<rparr>;
                    result = translate_loop Map.empty ms [];
                    w = w\<lparr>printed := printed w @ [GeneratedMetrics (length result)]\<rparr>
                in Inr (w\<lparr>files := (files w)(outFile \<mapsto> MetricsFile result)\<rparr>))))"

subsection \<open>Reconciliation\<close>

text \<open>
  \<open>generate_final_metrics_list\<close> loads the two lists, runs the loop of lines 88-95 from
  an empty result and writes the result; the search and the loop are what follows.
\<close>

fun find_metric :: "'a metric_scheme list \<Rightarrow> string \<Rightarrow> 'a metric_scheme option" where
  "find_metric [] mName = None"
| "find_metric (m # mList) mName =
     (if name m = mName then Some m else find_metric mList mName)"

text \<open>
  The loop of lines 88-95: \<open>m["origin"] = "perfspect"\<close> sets the key \<open>origin\<close> of the used
  entry and leaves its other keys as they are.
\<close>

fun reconcile_loop ::
  "'a metric_scheme list \<Rightarrow> 'a metric_scheme list \<Rightarrow> 'a metric_scheme list \<Rightarrow> 'a metric_scheme list" where
  "reconcile_loop allMetrics [] result = result"
| "reconcile_loop allMetrics (m # usedMetrics) result =
     (case find_metric allMetrics (name m) of
        Some found \<Rightarrow> reconcile_loop allMetrics usedMetrics (result @ [found])
      | None \<Rightarrow>
          reconcile_loop allMetrics usedMetrics (result @ [m\<lparr>origin := Some ''perfspect''\<rparr>]))"

subsection \<open>The translation as the specification words it\<close>

text \<open>
  The definitions of this subsection follow the specification, not the source; the
  theorems below compare them with \<open>translate_body\<close>.
\<close>

definition ident_char :: "char \<Rightarrow> bool" where
  "ident_char c = (isalpha c \<or> c = CHR ''_'')"

text \<open>The alias table of one metric: the last entry with a given alias decides.\<close>

definition alias_table :: "perfmon_metric \<Rightarrow> (string \<rightharpoonup> string)" where
  "alias_table m a =
     (case filter (\<lambda>e. Alias e = a) (Events m @ Constants m) of
        [] \<Rightarrow> None
      | e # es \<Rightarrow> Some (Name (last (e # es))))"

text \<open>
  Every maximal run of identifier characters that is a key of the table is replaced by
  the bracketed name; every other run and every other character is copied.
\<close>

function spec_rewrite :: "(string \<rightharpoonup> string) \<Rightarrow> string \<Rightarrow> string" where
  "spec_rewrite tab [] = []"
| "spec_rewrite tab (c # cs) =
     (if ident_char c then
        (case tab (c # takeWhile ident_char cs) of
           Some resolved \<Rightarrow> ''['' @ resolved @ '']'' @ spec_rewrite tab (dropWhile ident_char cs)
         | None \<Rightarrow> (c # takeWhile ident_char cs) @ spec_rewrite tab (dropWhile ident_char cs))
      else c # spec_rewrite tab cs)"
  by pat_completeness auto
termination
  by (relation "measure (\<lambda>(tab, s). length s)") (auto simp: length_dropWhile_le less_Suc_eq_le)

text \<open>The eight replacements, one after the other in the order of the table.\<close>

definition spec_replacements :: "string \<Rightarrow> string" where
  "spec_replacements s0 =
     (let s1 = str_replace s0 ''[INST_RETIRED.ANY]'' ''[instructions]'';
          s2 = str_replace s1 ''[CPU_CLK_UNHALTED.THREAD]'' ''[cpu-cycles]'';
          s3 = str_replace s2 ''[CPU_CLK_UNHALTED.REF]'' ''[ref-cycles]'';
          s4 = str_replace s3 ''[CPU_CLK_UNHALTED.REF_TSC]'' ''[ref-cycles]'';
          s5 = str_replace s4 ''DURATIONTIMEINSECONDS'' ''1'';
          s6 = str_replace s5 ''[DURATIONTIMEINMILLISECONDS]'' ''1000'';
          s7 = str_replace s6 ''[TOPDOWN.SLOTS:perf_metrics]'' ''[TOPDOWN.SLOTS]'';
          s8 = str_replace s7 ''[OFFCORE_REQUESTS_OUTSTANDING.ALL_DATA_RD:c4]''
                 ''[OFFCORE_REQUESTS_OUTSTANDING.DATA_RD:c4]''
      in s8)"

definition spec_expression :: "perfmon_metric \<Rightarrow> string" where
  "spec_expression m = spec_replacements (spec_rewrite (alias_table m) (Formula m))"

section \<open>Properties of check\_events.py\<close>

subsection \<open>String primitives\<close>

lemma startswith_single: "startswith (a # s) [c] = (a = c)"
  by (simp add: startswith_def)

lemma str_find_char:
  "str_find s [c] = (if c \<in> set s then int (length (takeWhile (\<lambda>x. x \<noteq> c) s)) else - 1)"
  by (induction s) (auto simp: startswith_single Let_def)

lemma slice_from_0: "slice_from s 0 = s"
  by (simp add: slice_from_def slice_bound_def)

lemma slice_bound_nat: "slice_bound s (int n) = min n (length s)"
  by (simp add: slice_bound_def Let_def)

lemma slice_prefix: "n \<le> length s \<Longrightarrow> slice s 0 (int n) = take n s"
  using slice_bound_nat [of s 0] by (simp add: slice_def slice_bound_nat)

lemma slice_from_nat: "slice_from s (int n) = drop n s"
  by (simp add: slice_from_def slice_bound_nat min_def)

lemma slice_nat: "slice s (int a) (int b) = take (b - a) (drop a s)"
proof -
  have "take (min b (length s) - min a (length s)) (drop (min a (length s)) s) = take (b - a) (drop a s)"
    by (cases "a \<le> length s"; cases "b \<le> length s") (auto simp: min_def)
  then show ?thesis by (simp add: slice_def slice_bound_nat)
qed

subsection \<open>Colon truncation\<close>

lemma colon_truncate_eq:
  "colon_truncate x =
     (if x \<noteq> [] \<and> hd x = CHR '':'' then x else takeWhile (\<lambda>c. c \<noteq> CHR '':'') x)"
proof (cases "CHR '':'' \<in> set x")
  case False
  then have "str_find x '':'' = - 1" by (simp add: str_find_char)
  then have ct: "colon_truncate x = x" by (simp add: colon_truncate_def)
  from False have tw: "takeWhile (\<lambda>c. c \<noteq> CHR '':'') x = x"
    by (auto simp: takeWhile_eq_all_conv)
  show ?thesis unfolding ct tw by simp
next
  case True
  let ?t = "takeWhile (\<lambda>c. c \<noteq> CHR '':'') x"
  from True have f: "str_find x '':'' = int (length ?t)" by (simp add: str_find_char)
  have le: "length ?t \<le> length x" by (rule length_takeWhile_le)
  have tk: "take (length ?t) x = ?t" by (simp add: takeWhile_eq_take [symmetric])
  show ?thesis
  proof (cases "x \<noteq> [] \<and> hd x = CHR '':''")
    case True
    then have "?t = []" by (cases x) auto
    with f have ct: "colon_truncate x = x" by (simp add: colon_truncate_def)
    from True show ?thesis unfolding ct by simp
  next
    case False
    with \<open>CHR '':'' \<in> set x\<close> have "?t \<noteq> []" by (cases x) auto
    then have "0 < length ?t" by simp
    with f have "colon_truncate x = slice x 0 (int (length ?t))"
      by (simp add: colon_truncate_def)
    also have "\<dots> = ?t" using le tk by (simp add: slice_prefix)
    finally have ct: "colon_truncate x = ?t" .
    from False show ?thesis unfolding ct by auto
  qed
qed

lemma colon_only_first_truncate: "colon_only_first (colon_truncate x)"
proof (cases "x \<noteq> [] \<and> hd x = CHR '':''")
  case True
  then show ?thesis by (simp add: colon_truncate_eq colon_only_first_def)
next
  case False
  have "CHR '':'' \<notin> set (takeWhile (\<lambda>c. c \<noteq> CHR '':'') x)"
    by (auto dest: set_takeWhileD)
  with False show ?thesis by (simp add: colon_truncate_eq colon_only_first_def)
qed

subsection \<open>The dictionary of used events\<close>

lemma dict_keys_set: "set (dict_keys (dict_set d k v)) = insert k (set (dict_keys d))"
  by (induction d k v rule: dict_set.induct) (auto simp: dict_keys_def)

lemma dict_keys_distinct: "distinct (dict_keys d) \<Longrightarrow> distinct (dict_keys (dict_set d k v))"
proof (induction d k v rule: dict_set.induct)
  case (1 k v)
  then show ?case by (simp add: dict_keys_def)
next
  case (2 k' v' kvs k v)
  then show ?case
    using dict_keys_set [of kvs k v] by (auto simp: dict_keys_def)
qed

subsection \<open>The scan loop\<close>

lemma scan_body_no_close:
  assumes "str_find (formula s) '']'' = - 1"
  shows "formula (scan_body s) = formula s"
    and "start_bracket (scan_body s) = str_find (formula s) ''[''"
  using assms by (simp_all add: scan_body_def Let_def slice_from_0)

lemma scan_loop_not_stuck:
  assumes "scan_loop s = Some y"
  shows "\<not> stuck s"
proof (rule scan_loop.raw_induct [where P = "\<lambda>s y. \<not> stuck s", OF _ assms])
  fix loop :: "scan_state \<Rightarrow> scan_state option" and s y
  assume IH: "\<And>x y. loop x = Some y \<Longrightarrow> \<not> stuck x"
    and eq: "(if 0 \<le> start_bracket s then loop (scan_body s) else Some s) = Some y"
  show "\<not> stuck s"
  proof
    assume a: "stuck s"
    with eq have "loop (scan_body s) = Some y" by (simp add: stuck_def)
    from IH [OF this] a show False
      by (simp add: scan_body_no_close stuck_def)
  qed
qed

lemma scan_loop_stuck: "stuck s \<Longrightarrow> scan_loop s = None"
  using scan_loop_not_stuck [of s] by (cases "scan_loop s") auto

lemma scan_loop_invariant:
  assumes "scan_loop s = Some y" and "I s"
    and step: "\<And>t. I t \<Longrightarrow> 0 \<le> start_bracket t \<Longrightarrow> I (scan_body t)"
  shows "I y"
proof -
  have "I s \<longrightarrow> I y"
  proof (rule scan_loop.raw_induct [where P = "\<lambda>s y. I s \<longrightarrow> I y", OF _ assms(1)])
    fix loop :: "scan_state \<Rightarrow> scan_state option" and s y
    assume IH: "\<And>x y. loop x = Some y \<Longrightarrow> I x \<longrightarrow> I y"
      and eq: "(if 0 \<le> start_bracket s then loop (scan_body s) else Some s) = Some y"
    show "I s \<longrightarrow> I y"
    proof
      assume "I s"
      show "I y"
      proof (cases "0 \<le> start_bracket s")
        case True
        with eq have "loop (scan_body s) = Some y" by simp
        from IH [OF this] step [OF \<open>I s\<close> True] show ?thesis by simp
      next
        case False
        with eq \<open>I s\<close> show ?thesis by simp
      qed
    qed
  qed
  with assms(2) show ?thesis by simp
qed

lemma scan_body_keys:
  "set (dict_keys (used_events (scan_body s))) \<subseteq>
     set (dict_keys (used_events s)) \<union>
       {e. (\<exists>x. e = colon_truncate x) \<and> \<not> startswith e ''const_''}"
  by (auto simp: scan_body_def Let_def dict_keys_set)

lemma scan_body_distinct:
  "distinct (dict_keys (used_events s)) \<Longrightarrow> distinct (dict_keys (used_events (scan_body s)))"
  by (simp add: scan_body_def Let_def dict_keys_distinct)

lemma scan_body_keys_ok:
  assumes "\<forall>e \<in> set (dict_keys (used_events s)). key_ok e"
  shows "\<forall>e \<in> set (dict_keys (used_events (scan_body s))). key_ok e"
  using assms scan_body_keys [of s] colon_only_first_truncate
  by (auto simp: key_ok_def)

lemma scan_loop_keys_ok:
  assumes "scan_loop s = Some y" and "\<forall>e \<in> set (dict_keys (used_events s)). key_ok e"
  shows "\<forall>e \<in> set (dict_keys (used_events y)). key_ok e"
  by (rule scan_loop_invariant [OF assms(1), where I = "\<lambda>s. \<forall>e \<in> set (dict_keys (used_events s)). key_ok e"])
     (use assms(2) scan_body_keys_ok in auto)

lemma scan_loop_distinct:
  assumes "scan_loop s = Some y" and "distinct (dict_keys (used_events s))"
  shows "distinct (dict_keys (used_events y))"
  by (rule scan_loop_invariant [OF assms(1), where I = "\<lambda>s. distinct (dict_keys (used_events s))"])
     (use assms(2) scan_body_distinct in auto)

lemma scan_metrics_keys_ok:
  assumes "scan_metrics ms st = Some st'" and "\<forall>e \<in> set (dict_keys (fst st)). key_ok e"
  shows "\<forall>e \<in> set (dict_keys (fst st')). key_ok e"
  using assms
proof (induction ms arbitrary: st)
  case Nil
  then show ?case by simp
next
  case (Cons m ms)
  from Cons.prems(1) obtain st1 where a: "scan_metric m st = Some st1"
    and b: "scan_metrics ms st1 = Some st'"
    by (auto split: option.splits)
  from a obtain y where y: "scan_loop \<lparr>formula = expression m,
      start_bracket = str_find (expression m) ''['', used_events = fst st, m_events = []\<rparr> = Some y"
    and st1: "fst st1 = used_events y"
    by (auto simp: scan_metric_def split: option.splits)
  from scan_loop_keys_ok [OF y] Cons.prems(2) st1
  have "\<forall>e \<in> set (dict_keys (fst st1)). key_ok e" by simp
  from Cons.IH [OF b this] show ?case .
qed

lemma scan_metrics_distinct:
  assumes "scan_metrics ms st = Some st'" and "distinct (dict_keys (fst st))"
  shows "distinct (dict_keys (fst st'))"
  using assms
proof (induction ms arbitrary: st)
  case Nil
  then show ?case by simp
next
  case (Cons m ms)
  from Cons.prems(1) obtain st1 where a: "scan_metric m st = Some st1"
    and b: "scan_metrics ms st1 = Some st'"
    by (auto split: option.splits)
  from a obtain y where y: "scan_loop \<lparr>formula = expression m,
      start_bracket = str_find (expression m) ''['', used_events = fst st, m_events = []\<rparr> = Some y"
    and st1: "fst st1 = used_events y"
    by (auto simp: scan_metric_def split: option.splits)
  from scan_loop_distinct [OF y] Cons.prems(2) st1
  have "distinct (dict_keys (fst st1))" by simp
  from Cons.IH [OF b this] show ?case .
qed

subsection \<open>The events file\<close>

lemma read_events_set:
  "set (read_events lines acc) =
     set acc \<union> {e. e \<noteq> [] \<and> (\<exists>l \<in> set lines. get_event l = Some e)}"
  by (induction lines acc rule: read_events.induct) (auto split: option.splits)

lemma read_events_distinct: "distinct acc \<Longrightarrow> distinct (read_events lines acc)"
  by (induction lines acc rule: read_events.induct)
     (auto simp: count_list_0_iff split: option.splits)

subsection \<open>The result of the check, and one pass of the scan\<close>

lemma check_result:
  assumes "check ms ls = Some (missing, unused)"
  obtains st where "scan_metrics ms ([], []) = Some st"
    and "missing = filter (\<lambda>x. x \<notin> set (read_events ls [])) (dict_keys (fst st))"
    and "unused = filter (\<lambda>x. x \<notin> set (dict_keys (fst st))) (read_events ls [])"
  using assms by (auto simp: check_def Let_def split: option.splits)

lemma used_keys_ok:
  assumes "scan_metrics ms ([], []) = Some st"
  shows "\<forall>e \<in> set (dict_keys (fst st)). key_ok e"
  by (rule scan_metrics_keys_ok [OF assms]) (simp add: dict_keys_def)

lemma used_keys_distinct:
  assumes "scan_metrics ms ([], []) = Some st"
  shows "distinct (dict_keys (fst st))"
  by (rule scan_metrics_distinct [OF assms]) (simp add: dict_keys_def)

lemma startswith_nonempty: "startswith x ''const_'' \<Longrightarrow> x \<noteq> []"
  by (auto simp: startswith_def)

lemma takeWhile_neq_append:
  "c \<notin> set pre \<Longrightarrow> takeWhile (\<lambda>x. x \<noteq> c) (pre @ ys) = pre @ takeWhile (\<lambda>x. x \<noteq> c) ys"
  by (induction pre) auto

lemma dropWhile_neq_append:
  "c \<notin> set pre \<Longrightarrow> dropWhile (\<lambda>x. x \<noteq> c) (pre @ ys) = dropWhile (\<lambda>x. x \<noteq> c) ys"
  by (induction pre) auto

lemma str_find_first:
  assumes "c \<notin> set pre"
  shows "str_find (pre @ c # rest) [c] = int (length pre)"
proof -
  have "takeWhile (\<lambda>x. x \<noteq> c) (pre @ c # rest) = pre"
    using assms by (simp add: takeWhile_neq_append)
  then show ?thesis by (simp add: str_find_char)
qed

lemma slice_succ: "slice s (int a + 1) (int b) = take (b - Suc a) (drop (Suc a) s)"
  using slice_nat [of s "Suc a" b] by (simp add: add.commute)

lemma slice_from_succ: "slice_from s (int a + 1) = drop (Suc a) s"
  using slice_from_nat [of s "Suc a"] by (simp add: add.commute)

lemma scan_body_paired:
  fixes pre tok rest :: string and u :: counts and m :: "string list"
  assumes "CHR ''['' \<notin> set pre" and "CHR '']'' \<notin> set pre" and "CHR '']'' \<notin> set tok"
  defines "f \<equiv> pre @ ''['' @ tok @ '']'' @ rest"
  defines "s \<equiv> \<lparr>formula = f, start_bracket = str_find f ''['', used_events = u, m_events = m\<rparr>"
  shows "formula (scan_body s) = rest"
    and "m_events (scan_body s) = m @ [colon_truncate tok]"
    and "start_bracket (scan_body s) = str_find rest ''[''"
    and "spec_bracket_step f = Some (tok, rest)"
proof -
  define J where "J = length pre + 1 + length tok"
  have i: "str_find f ''['' = int (length pre)"
    unfolding f_def using str_find_first [OF assms(1)] by simp
  have "CHR '']'' \<notin> set (pre @ ''['' @ tok)" using assms(2,3) by simp
  from str_find_first [OF this, of rest]
  have j: "str_find f '']'' = int J"
    unfolding f_def J_def by simp
  have ev: "slice f (int (length pre) + 1) (int J) = tok"
    unfolding slice_succ by (simp add: f_def J_def)
  have rs: "slice_from f (int J + 1) = rest"
    unfolding slice_from_succ by (simp add: f_def J_def)
  show "formula (scan_body s) = rest"
    by (simp add: scan_body_def Let_def s_def i j rs)
  show "m_events (scan_body s) = m @ [colon_truncate tok]"
    by (simp add: scan_body_def Let_def s_def i j ev)
  show "start_bracket (scan_body s) = str_find rest ''[''"
    by (simp add: scan_body_def Let_def s_def i j rs)
  have dw: "dropWhile (\<lambda>c. c \<noteq> CHR ''['') f = ''['' @ tok @ '']'' @ rest"
    unfolding f_def using assms(1) by (simp add: dropWhile_neq_append)
  have tw: "takeWhile (\<lambda>c. c \<noteq> CHR '']'') (tok @ '']'' @ rest) = tok"
    using assms(3) by (simp add: takeWhile_neq_append)
  have dw2: "dropWhile (\<lambda>c. c \<noteq> CHR '']'') (tok @ '']'' @ rest) = '']'' @ rest"
    using assms(3) by (simp add: dropWhile_neq_append)
  have "CHR ''['' \<in> set f" by (simp add: f_def)
  then show "spec_bracket_step f = Some (tok, rest)"
    using tw dw2 by (simp add: spec_bracket_step_def dw Let_def)
qed

lemma scan_body_stray:
  fixes pre rest :: string and u :: counts and m :: "string list"
  assumes "CHR ''['' \<notin> set pre" and "CHR '']'' \<notin> set pre" and "CHR ''['' \<in> set rest"
  defines "f \<equiv> pre @ '']'' @ rest"
  defines "s \<equiv> \<lparr>formula = f, start_bracket = str_find f ''['', used_events = u, m_events = m\<rparr>"
  shows "formula (scan_body s) = rest"
    and "m_events (scan_body s) = m @ [[]]"
    and "start_bracket (scan_body s) = str_find rest ''[''"
proof -
  define I where "I = length pre + 1 + length (takeWhile (\<lambda>c. c \<noteq> CHR ''['') rest)"
  have "takeWhile (\<lambda>c. c \<noteq> CHR ''['') f = pre @ '']'' @ takeWhile (\<lambda>c. c \<noteq> CHR ''['') rest"
    unfolding f_def using assms(1) by (simp add: takeWhile_neq_append)
  moreover have "CHR ''['' \<in> set f" using assms(3) by (simp add: f_def)
  ultimately have i: "str_find f ''['' = int I"
    by (simp add: str_find_char I_def)
  have j: "str_find f '']'' = int (length pre)"
    unfolding f_def using str_find_first [OF assms(2)] by simp
  have "length pre - Suc I = 0" by (simp add: I_def)
  then have ev: "slice f (int I + 1) (int (length pre)) = []"
    unfolding slice_succ by simp
  have rs: "slice_from f (int (length pre) + 1) = rest"
    unfolding slice_from_succ by (simp add: f_def)
  have ct: "colon_truncate [] = []" by (simp add: colon_truncate_eq)
  show "formula (scan_body s) = rest"
    by (simp add: scan_body_def Let_def s_def i j rs)
  show "m_events (scan_body s) = m @ [[]]"
    by (simp add: scan_body_def Let_def s_def i j ev ct)
  show "start_bracket (scan_body s) = str_find rest ''[''"
    by (simp add: scan_body_def Let_def s_def i j rs)
qed


subsection \<open>Termination of the check\<close>

text \<open>
  C3. The bracket scan should end on every expression, malformed ones included, so
  that the check always returns its two lists. It does not: on the expression \<open>[A\<close>,
  which opens a bracket and never closes it, \<open>formula.find("]")\<close> is \<open>-1\<close>, the
  assignment \<open>formula = formula[end_bracket+1:]\<close> leaves the formula as it is, and the
  loop never ends: the check returns nothing, whatever the events file holds.
\<close>

theorem check_unclosed_bracket_diverges:
  "check [\<lparr>name = ''m'', expression = ''[A'', origin = None\<rparr>] lines = None"
proof -
  have "stuck \<lparr>formula = ''[A'', start_bracket = str_find ''[A'' ''['',
                used_events = [], m_events = []\<rparr>"
    by (simp add: stuck_def startswith_def)
  then have "scan_loop \<lparr>formula = ''[A'', start_bracket = str_find ''[A'' ''['',
                used_events = [], m_events = []\<rparr> = None"
    by (rule scan_loop_stuck)
  then show ?thesis
    by (simp add: check_def scan_metric_def)
qed

subsection \<open>The pairing rule of the scan\<close>

text \<open>
  On \<open>]a[b]\<close> the specification's rule pairs the \<open>[\<close> with the \<open>]\<close> that follows it
  and yields the token \<open>b\<close>. The code takes \<open>formula.find("]")\<close>, the first \<open>]\<close> of the
  whole remaining string, which here stands before the \<open>[\<close>: the token of this pass is
  empty, the scan resumes after the stray \<open>]\<close>, and the check reports the empty name as
  a missing event.
\<close>

theorem scan_body_stray_close_counterexample:
  "spec_bracket_step '']a[b]'' = Some (''b'', [])
   \<and> formula (scan_body (scan_at '']a[b]'' [] [])) = ''a[b]''
   \<and> m_events (scan_body (scan_at '']a[b]'' [] [])) = [[]]
   \<and> check [\<lparr>name = ''m'', expression = '']a[b]'', origin = None\<rparr>] [] = Some ([[], ''b''], [])"
  by code_simp

text \<open>
  C4, as the code has it. A pass of the scan pairs the first \<open>[\<close> of the remaining
  string with the first \<open>]\<close> of the remaining string.
  \<^item> When no \<open>]\<close> stands before the first \<open>[\<close>, that \<open>]\<close> is the next one after the \<open>[\<close>:
    the candidate token is the text strictly between the two (the recorded event is its
    colon truncation), the scan resumes after the \<open>]\<close>, and the pass agrees with the
    rule of the specification.
  \<^item> When a \<open>]\<close> stands before the first \<open>[\<close>, the candidate token is empty and the scan
    resumes after that stray \<open>]\<close>.
  Nothing is said here about a remaining string with a \<open>[\<close> and no \<open>]\<close> at all.
\<close>

theorem scan_body_pairing:
  "(CHR ''['' \<notin> set pre \<and> CHR '']'' \<notin> set pre \<and> CHR '']'' \<notin> set tok \<longrightarrow>
      formula (scan_body (scan_at (pre @ ''['' @ tok @ '']'' @ rest) u m)) = rest
      \<and> m_events (scan_body (scan_at (pre @ ''['' @ tok @ '']'' @ rest) u m)) = m @ [colon_truncate tok]
      \<and> start_bracket (scan_body (scan_at (pre @ ''['' @ tok @ '']'' @ rest) u m)) = str_find rest ''[''
      \<and> spec_bracket_step (pre @ ''['' @ tok @ '']'' @ rest) = Some (tok, rest))
   \<and> (CHR ''['' \<notin> set pre \<and> CHR '']'' \<notin> set pre \<and> CHR ''['' \<in> set rest \<longrightarrow>
      formula (scan_body (scan_at (pre @ '']'' @ rest) u m)) = rest
      \<and> m_events (scan_body (scan_at (pre @ '']'' @ rest) u m)) = m @ [[]]
      \<and> start_bracket (scan_body (scan_at (pre @ '']'' @ rest) u m)) = str_find rest ''['')"
proof (intro conjI impI)
  assume a: "CHR ''['' \<notin> set pre \<and> CHR '']'' \<notin> set pre \<and> CHR '']'' \<notin> set tok"
  then have a1: "CHR ''['' \<notin> set pre" and a2: "CHR '']'' \<notin> set pre" and a3: "CHR '']'' \<notin> set tok"
    by blast+
  note p = scan_body_paired [OF a1 a2 a3, folded scan_at_def]
  show "formula (scan_body (scan_at (pre @ ''['' @ tok @ '']'' @ rest) u m)) = rest" by (rule p)
  show "m_events (scan_body (scan_at (pre @ ''['' @ tok @ '']'' @ rest) u m)) = m @ [colon_truncate tok]"
    by (rule p)
  show "start_bracket (scan_body (scan_at (pre @ ''['' @ tok @ '']'' @ rest) u m)) = str_find rest ''[''"
    by (rule p)
  show "spec_bracket_step (pre @ ''['' @ tok @ '']'' @ rest) = Some (tok, rest)" by (rule p)
next
  assume a: "CHR ''['' \<notin> set pre \<and> CHR '']'' \<notin> set pre \<and> CHR ''['' \<in> set rest"
  then have a1: "CHR ''['' \<notin> set pre" and a2: "CHR '']'' \<notin> set pre" and a3: "CHR ''['' \<in> set rest"
    by blast+
  note p = scan_body_stray [OF a1 a2 a3, folded scan_at_def]
  show "formula (scan_body (scan_at (pre @ '']'' @ rest) u m)) = rest" by (rule p)
  show "m_events (scan_body (scan_at (pre @ '']'' @ rest) u m)) = m @ [[]]" by (rule p)
  show "start_bracket (scan_body (scan_at (pre @ '']'' @ rest) u m)) = str_find rest ''[''" by (rule p)
qed

theorem scan_body_pairing_witness:
  "(CHR ''['' \<notin> set ''1 + '' \<and> CHR '']'' \<notin> set ''1 + '' \<and> CHR '']'' \<notin> set ''A:c1'')
   \<and> formula (scan_body (scan_at (''1 + '' @ ''['' @ ''A:c1'' @ '']'' @ '' * [B]'') [] [])) = '' * [B]''
   \<and> m_events (scan_body (scan_at (''1 + '' @ ''['' @ ''A:c1'' @ '']'' @ '' * [B]'') [] [])) = [''A'']
   \<and> spec_bracket_step (''1 + '' @ ''['' @ ''A:c1'' @ '']'' @ '' * [B]'') = Some (''A:c1'', '' * [B]'')
   \<and> (CHR ''['' \<notin> set ''x'' \<and> CHR '']'' \<notin> set ''x'' \<and> CHR ''['' \<in> set ''a[b]'')
   \<and> formula (scan_body (scan_at (''x'' @ '']'' @ ''a[b]'') [] [])) = ''a[b]''
   \<and> m_events (scan_body (scan_at (''x'' @ '']'' @ ''a[b]'') [] [])) = [[]]"
proof -
  have h1: "CHR ''['' \<notin> set ''1 + '' \<and> CHR '']'' \<notin> set ''1 + '' \<and> CHR '']'' \<notin> set ''A:c1''" by simp
  have h2: "CHR ''['' \<notin> set ''x'' \<and> CHR '']'' \<notin> set ''x'' \<and> CHR ''['' \<in> set ''a[b]''" by simp
  have ct: "colon_truncate ''A:c1'' = ''A''" by code_simp
  from scan_body_pairing [of "''1 + ''" "''A:c1''" "'' * [B]''" "[]" "[]"]
    scan_body_pairing [of "''x''" "[]" "''a[b]''" "[]" "[]"] h1 h2 ct
  show ?thesis by (simp del: append.simps)
qed

subsection \<open>Constant-prefixed names\<close>

text \<open>
  The prefix \<open>const_\<close> is tested in one place only, where a token of a formula enters
  \<open>used_events\<close>. A name that the events file itself declares is not tested: with no
  metric at all and the one events line \<open>name='const_X'\<close>, the name \<open>const_X\<close> is reported
  as unused.
\<close>

theorem const_declared_unused_counterexample:
  "check ([] :: metric list) [''name='' @ [CHR 0x27] @ ''const_X'' @ [CHR 0x27] @ [CHR 0x0A]]
     = Some ([], [''const_X''])
   \<and> startswith ''const_X'' ''const_''"
  by code_simp

text \<open>
  C6, as the code has it. Whenever the check returns, a name that begins with \<open>const_\<close>
  is never in \<open>missing_events\<close>; it is in \<open>unused_events\<close> exactly when some line of the
  events file declares it.
\<close>

theorem const_events_in_lists:
  assumes "check ms ls = Some (missing, unused)" and "startswith x ''const_''"
  shows "x \<notin> set missing \<and> (x \<in> set unused \<longleftrightarrow> (\<exists>l \<in> set ls. get_event l = Some x))"
proof -
  from assms(1) obtain st where st: "scan_metrics ms ([], []) = Some st"
    and mi: "missing = filter (\<lambda>x. x \<notin> set (read_events ls [])) (dict_keys (fst st))"
    and un: "unused = filter (\<lambda>x. x \<notin> set (dict_keys (fst st))) (read_events ls [])"
    by (rule check_result)
  from used_keys_ok [OF st] assms(2) have nk: "x \<notin> set (dict_keys (fst st))"
    by (auto simp: key_ok_def)
  from assms(2) have "x \<noteq> []" by (rule startswith_nonempty)
  then have "x \<in> set (read_events ls []) \<longleftrightarrow> (\<exists>l \<in> set ls. get_event l = Some x)"
    by (simp add: read_events_set)
  with nk show ?thesis by (simp add: mi un)
qed

theorem const_events_in_lists_witness:
  "check [\<lparr>name = ''m1'', expression = ''[A] + [const_X]'', origin = None\<rparr>]
         [''name='' @ [CHR 0x27] @ ''const_X'' @ [CHR 0x27] @ [CHR 0x0A]]
     = Some ([''A''], [''const_X''])
   \<and> startswith ''const_X'' ''const_''
   \<and> ''const_X'' \<notin> set [''A'']
   \<and> ''const_X'' \<in> set [''const_X'']
   \<and> get_event (''name='' @ [CHR 0x27] @ ''const_X'' @ [CHR 0x27] @ [CHR 0x0A]) = Some ''const_X''"
proof -
  have c: "check [\<lparr>name = ''m1'', expression = ''[A] + [const_X]'', origin = None\<rparr>]
         [''name='' @ [CHR 0x27] @ ''const_X'' @ [CHR 0x27] @ [CHR 0x0A]]
     = Some ([''A''], [''const_X''])" by code_simp
  have s: "startswith ''const_X'' ''const_''" by code_simp
  from const_events_in_lists [OF c s] c s show ?thesis by simp
qed

subsection \<open>Colon truncation of the tokens\<close>




subsection \<open>The two lists never overlap\<close>

text \<open>
  \<open>missing_events\<close> keeps the used names that are not declared and \<open>unused_events\<close>
  keeps the declared names that are not used, so no name can be in both: there is no
  input on which the two lists share a name.
\<close>

lemma check_disjoint:
  assumes "check ms ls = Some (missing, unused)"
  shows "set missing \<inter> set unused = {}"
proof -
  from assms obtain st where st: "scan_metrics ms ([], []) = Some st"
    and mi: "missing = filter (\<lambda>x. x \<notin> set (read_events ls [])) (dict_keys (fst st))"
    and un: "unused = filter (\<lambda>x. x \<notin> set (dict_keys (fst st))) (read_events ls [])"
    by (rule check_result)
  show ?thesis unfolding mi un by auto
qed

theorem lists_share_name_counterexample:
  "\<not> (\<exists>(ms :: metric list) ls missing unused x.
        check ms ls = Some (missing, unused) \<and> x \<in> set missing \<and> x \<in> set unused)"
  using check_disjoint by blast

text \<open>
  C8, as the code has it. Whenever the check returns, \<open>missing_events\<close> and
  \<open>unused_events\<close> have no name in common, and neither list repeats a name.
\<close>

theorem lists_disjoint:
  assumes "check ms ls = Some (missing, unused)"
  shows "set missing \<inter> set unused = {} \<and> distinct missing \<and> distinct unused"
proof -
  from assms obtain st where st: "scan_metrics ms ([], []) = Some st"
    and mi: "missing = filter (\<lambda>x. x \<notin> set (read_events ls [])) (dict_keys (fst st))"
    and un: "unused = filter (\<lambda>x. x \<notin> set (dict_keys (fst st))) (read_events ls [])"
    by (rule check_result)
  have "distinct missing" unfolding mi using used_keys_distinct [OF st] by simp
  moreover have "distinct unused" unfolding un using read_events_distinct [of "[]" ls] by simp
  ultimately show ?thesis using check_disjoint [OF assms] by simp
qed

theorem lists_disjoint_witness:
  "check [\<lparr>name = ''m1'', expression = ''[C] + [A] * [C]'', origin = None\<rparr>]
         [''A,'' @ [CHR 0x0A], ''D,'' @ [CHR 0x0A], ''D,'' @ [CHR 0x0A]] = Some ([''C''], [''D''])
   \<and> set [''C''] \<inter> set [''D''] = {} \<and> distinct [''C''] \<and> distinct [''D'']"
proof -
  have c: "check [\<lparr>name = ''m1'', expression = ''[C] + [A] * [C]'', origin = None\<rparr>]
         [''A,'' @ [CHR 0x0A], ''D,'' @ [CHR 0x0A], ''D,'' @ [CHR 0x0A]] = Some ([''C''], [''D''])"
    by code_simp
  from lists_disjoint [OF c] c show ?thesis by simp
qed

subsection \<open>The worked example\<close>

text \<open>
  The events file with the two lines \<open>A\<close> and \<open>name='B'\<close> is read as the lines
  \<open>"A\n"\<close> and \<open>"name='B'\n"\<close>. The bare line loses its last two characters, which are
  all it has, and declares nothing; so \<open>A\<close> is missing.
\<close>

theorem check_example_counterexample:
  "check [\<lparr>name = ''m1'', expression = ''[A] + [B:c1] - [const_X]'', origin = None\<rparr>]
         [''A'' @ [CHR 0x0A], ''name='' @ [CHR 0x27] @ ''B'' @ [CHR 0x27] @ [CHR 0x0A]]
     \<noteq> Some ([], [])"
  by code_simp

text \<open>
  C10, as the code has it. For the metric \<open>m1\<close> with the expression
  \<open>[A] + [B:c1] - [const_X]\<close> and the events file with the two lines \<open>A\<close> and
  \<open>name='B'\<close> (whether or not the last line ends in a newline), the bare line \<open>A\<close>
  yields the empty name and the check returns \<open>missing_events = ["A"]\<close> and
  \<open>unused_events = []\<close>. With the bare line written \<open>A,\<close>, the form in which the last
  two characters are a separator and the newline, both lists are empty.
\<close>

theorem check_example:
  "get_event (''A'' @ [CHR 0x0A]) = Some []
   \<and> check [\<lparr>name = ''m1'', expression = ''[A] + [B:c1] - [const_X]'', origin = None\<rparr>]
         [''A'' @ [CHR 0x0A], ''name='' @ [CHR 0x27] @ ''B'' @ [CHR 0x27] @ [CHR 0x0A]]
       = Some ([''A''], [])
   \<and> check [\<lparr>name = ''m1'', expression = ''[A] + [B:c1] - [const_X]'', origin = None\<rparr>]
         [''A'' @ [CHR 0x0A], ''name='' @ [CHR 0x27] @ ''B'' @ [CHR 0x27]]
       = Some ([''A''], [])
   \<and> check [\<lparr>name = ''m1'', expression = ''[A] + [B:c1] - [const_X]'', origin = None\<rparr>]
         [''A,'' @ [CHR 0x0A], ''name='' @ [CHR 0x27] @ ''B'' @ [CHR 0x27] @ [CHR 0x0A]]
       = Some ([], [])"
  by code_simp

section \<open>Properties of perfmon2perfspect.py\<close>

subsection \<open>The loops and the specification's rewriting\<close>

lemma scan_ident_eq:
  "scan_ident fml k x =
     (x @ takeWhile ident_char (drop k fml), k + length (takeWhile ident_char (drop k fml)))"
proof (induction fml k x rule: scan_ident.induct)
  case (1 fml k x)
  show ?case
  proof (cases "k < length fml \<and> (isalpha (fml ! k) \<or> fml ! k = CHR ''_'')")
    case True
    then have d: "drop k fml = fml ! k # drop (Suc k) fml" by (simp add: Cons_nth_drop_Suc)
    from True have ic: "ident_char (fml ! k)" by (simp add: ident_char_def)
    from True have "scan_ident fml k x = scan_ident fml (k + 1) (x @ [fml ! k])"
      by (subst scan_ident.simps) simp
    also have "\<dots> = ((x @ [fml ! k]) @ takeWhile ident_char (drop (k + 1) fml),
                      k + 1 + length (takeWhile ident_char (drop (k + 1) fml)))"
      using True by (intro "1.IH") simp
    finally show ?thesis by (simp add: d ic)
  next
    case False
    then have s: "scan_ident fml k x = (x, k)"
      by (subst scan_ident.simps) (simp only: if_False)
    show ?thesis
    proof (cases "k < length fml")
      case True
      then have d: "drop k fml = fml ! k # drop (Suc k) fml" by (simp add: Cons_nth_drop_Suc)
      from True False have "\<not> ident_char (fml ! k)" by (simp add: ident_char_def)
      then show ?thesis by (simp add: s d)
    next
      case False
      then show ?thesis by (simp add: s)
    qed
  qed
qed

lemma rewrite_loop_eq:
  "rewrite_loop vars fml i acc = acc @ spec_rewrite vars (drop i fml)"
proof (induction vars fml i acc rule: rewrite_loop.induct)
  case (1 vars fml i acc)
  show ?case
  proof (cases "i < length fml")
    case False
    then show ?thesis by (subst rewrite_loop.simps) simp
  next
    case lt: True
    then have d: "drop i fml = fml ! i # drop (Suc i) fml" by (simp add: Cons_nth_drop_Suc)
    show ?thesis
    proof (cases "isalpha (fml ! i) \<or> fml ! i = CHR ''_''")
      case False
      then have ni: "\<not> ident_char (fml ! i)" by (simp add: ident_char_def)
      from lt False have "rewrite_loop vars fml i acc = rewrite_loop vars fml (i + 1) (acc @ [fml ! i])"
        by (subst rewrite_loop.simps) simp
      also have "\<dots> = (acc @ [fml ! i]) @ spec_rewrite vars (drop (i + 1) fml)"
        by (rule "1.IH"(3) [OF lt False])
      finally show ?thesis by (simp add: d ni)
    next
      case True
      then have ic: "ident_char (fml ! i)" by (simp add: ident_char_def)
      let ?cs = "drop (Suc i) fml"
      let ?tw = "takeWhile ident_char ?cs"
      let ?x = "fml ! i # ?tw"
      define k where "k = i + 1 + length ?tw"
      have si: "scan_ident fml (i + 1) [fml ! i] = (?x, k)"
        by (simp add: scan_ident_eq k_def)
      have dk: "drop k fml = dropWhile ident_char ?cs"
        by (simp add: dropWhile_eq_drop [of ident_char ?cs] add.commute k_def)
      have "slice fml (int i) (int k) = take (Suc (length ?tw)) (drop i fml)"
        unfolding slice_nat by (simp add: k_def)
      also have "\<dots> = fml ! i # take (length ?tw) ?cs" by (simp add: d)
      also have "\<dots> = ?x" by (simp add: takeWhile_eq_take [symmetric])
      finally have sl: "slice fml (int i) (int k) = ?x" .
      have sr: "spec_rewrite vars (drop i fml) =
          (case vars ?x of Some resolved \<Rightarrow> ''['' @ resolved @ '']'' | None \<Rightarrow> ?x)
            @ spec_rewrite vars (dropWhile ident_char ?cs)"
        by (simp add: d ic split: option.splits)
      show ?thesis
      proof (cases "vars ?x")
        case None
        from lt True si None
        have "rewrite_loop vars fml i acc = rewrite_loop vars fml k (acc @ slice fml (int i) (int k))"
          by (subst rewrite_loop.simps) simp
        also have "\<dots> = (acc @ slice fml (int i) (int k)) @ spec_rewrite vars (drop k fml)"
          by (rule "1.IH"(1) [OF lt True si [symmetric] None])
        finally show ?thesis unfolding sl dk sr None by simp
      next
        case (Some resolved)
        from lt True si Some
        have "rewrite_loop vars fml i acc = rewrite_loop vars fml k (acc @ ''['' @ resolved @ '']'')"
          by (subst rewrite_loop.simps) simp
        also have "\<dots> = (acc @ ''['' @ resolved @ '']'') @ spec_rewrite vars (drop k fml)"
          by (rule "1.IH"(2) [OF lt True si [symmetric] Some])
        finally show ?thesis unfolding dk sr Some by simp
      qed
    qed
  qed
qed

lemma fold_alias:
  "fold (\<lambda>e v. v(Alias e \<mapsto> Name e)) es v a =
     (case filter (\<lambda>e. Alias e = a) es of
        [] \<Rightarrow> v a
      | e # es' \<Rightarrow> Some (Name (last (e # es'))))"
  by (induction es arbitrary: v) (auto split: list.splits)

lemma build_vars:
  "fold (\<lambda>c v. v(Alias c \<mapsto> Name c)) (Constants m)
     (fold (\<lambda>e v. v(Alias e \<mapsto> Name e)) (Events m) (dict_clear vars0)) = alias_table m"
proof
  fix a
  have "fold (\<lambda>c v. v(Alias c \<mapsto> Name c)) (Constants m)
     (fold (\<lambda>e v. v(Alias e \<mapsto> Name e)) (Events m) (dict_clear vars0)) a
    = fold (\<lambda>e v. v(Alias e \<mapsto> Name e)) (Events m @ Constants m) Map.empty a"
    by (simp add: dict_clear_def)
  also have "\<dots> = alias_table m a"
    unfolding fold_alias alias_table_def by (simp split: list.splits)
  finally show "fold (\<lambda>c v. v(Alias c \<mapsto> Name c)) (Constants m)
     (fold (\<lambda>e v. v(Alias e \<mapsto> Name e)) (Events m) (dict_clear vars0)) a = alias_table m a" .
qed

lemma fold_varMap: "fold (\<lambda>(v, r) f. str_replace f v r) varMap s = spec_replacements s"
  unfolding varMap_def spec_replacements_def Let_def by (simp only: fold_simps prod.case comp_apply)

lemma translate_body_eq:
  "translate_body vars0 m =
     (alias_table m, \<lparr>name = LegacyName m, expression = spec_expression m, origin = None\<rparr>)"
  unfolding translate_body_def Let_def build_vars fold_varMap rewrite_loop_eq spec_expression_def
  by simp

lemma translate_loop_eq:
  "translate_loop vars ms acc =
     acc @ map (\<lambda>m. \<lparr>name = LegacyName m, expression = spec_expression m, origin = None\<rparr>) ms"
  by (induction ms arbitrary: vars acc) (simp_all add: translate_body_eq)

lemma translate_body_table:
  "translate_body vars0 m =
     (alias_table m,
      \<lparr>name = LegacyName m,
       expression = fold (\<lambda>(v, r) f. str_replace f v r) varMap
                      (rewrite_loop (alias_table m) (Formula m) 0 []),
       origin = None\<rparr>)"
  unfolding translate_body_def Let_def build_vars by simp

lemma find_metric_eq: "find_metric mList mName = List.find (\<lambda>a. name a = mName) mList"
  by (induction mList) simp_all

lemma reconcile_loop_eq:
  "reconcile_loop allMetrics usedMetrics acc =
     acc @ map (\<lambda>m. case List.find (\<lambda>a. name a = name m) allMetrics of
                      Some a \<Rightarrow> a
                    | None \<Rightarrow> m\<lparr>origin := Some ''perfspect''\<rparr>) usedMetrics"
  by (induction usedMetrics arbitrary: acc) (simp_all add: find_metric_eq split: option.splits)

lemma find_name: "List.find (\<lambda>a. name a = n) xs = Some a \<Longrightarrow> name a = n"
  by (induction xs) (auto split: if_splits)

subsection \<open>The translated expression\<close>

text \<open>
  C1. For every perfmon metric, the translated expression is the result of rewriting
  \<open>Formula\<close> so that every maximal run of letters and underscores that is a key of the
  metric's alias table becomes the resolved name in square brackets, every other run
  and every other character being copied, and of then applying the eight literal
  replacements one after the other in the order of the table, each to the string that
  the one before it left. The same holds entry by entry for a whole document.
\<close>

theorem translated_expression:
  "expression (snd (translate_body vars m)) = spec_expression m
   \<and> name (snd (translate_body vars m)) = LegacyName m
   \<and> map expression (translate_loop vars ms []) = map spec_expression ms"
  by (simp add: translate_body_eq translate_loop_eq comp_def)

theorem translated_expression_witness:
  "map expression (translate_loop Map.empty
      [\<lparr>LegacyName = ''metric_x'',
        Events = [\<lparr>Alias = ''a'', Name = ''EVT_A''\<rparr>, \<lparr>Alias = ''b'', Name = ''INST_RETIRED.ANY''\<rparr>],
        Constants = [\<lparr>Alias = ''c'', Name = ''DURATIONTIMEINSECONDS''\<rparr>],
        Formula = ''a * 2 + b / min(c, a_b)''\<rparr>] [])
     = [''[EVT_A] * 2 + [instructions] / min([1], a_b)'']"
proof -
  have "spec_expression \<lparr>LegacyName = ''metric_x'',
        Events = [\<lparr>Alias = ''a'', Name = ''EVT_A''\<rparr>, \<lparr>Alias = ''b'', Name = ''INST_RETIRED.ANY''\<rparr>],
        Constants = [\<lparr>Alias = ''c'', Name = ''DURATIONTIMEINSECONDS''\<rparr>],
        Formula = ''a * 2 + b / min(c, a_b)''\<rparr> = ''[EVT_A] * 2 + [instructions] / min([1], a_b)''"
    by code_simp
  with translated_expression [where vars = Map.empty and ms =
      "[\<lparr>LegacyName = ''metric_x'',
        Events = [\<lparr>Alias = ''a'', Name = ''EVT_A''\<rparr>, \<lparr>Alias = ''b'', Name = ''INST_RETIRED.ANY''\<rparr>],
        Constants = [\<lparr>Alias = ''c'', Name = ''DURATIONTIMEINSECONDS''\<rparr>],
        Formula = ''a * 2 + b / min(c, a_b)''\<rparr>]"]
  show ?thesis by simp
qed

subsection \<open>No alias leaks from one metric to the next\<close>

text \<open>
  C5. The table consulted for a metric is the one built from that metric's own
  \<open>Events\<close> and \<open>Constants\<close>; the result of the loop body does not depend on the
  dictionary that the previous pass left; and the translation of the metric at
  position \<open>i\<close> is the same in any two documents that have the same metric at that
  position, whatever their other metrics are.
\<close>

theorem alias_table_per_metric:
  "translate_body vars m =
     (alias_table m,
      \<lparr>name = LegacyName m,
       expression = fold (\<lambda>(v, r) f. str_replace f v r) varMap
                      (rewrite_loop (alias_table m) (Formula m) 0 []),
       origin = None\<rparr>)
   \<and> translate_body vars m = translate_body vars' m
   \<and> (i < length ms \<and> i < length ms' \<and> ms ! i = ms' ! i \<longrightarrow>
        translate_loop vars ms [] ! i = translate_loop vars' ms' [] ! i)"
proof (intro conjI impI)
  show "translate_body vars m =
     (alias_table m,
      \<lparr>name = LegacyName m,
       expression = fold (\<lambda>(v, r) f. str_replace f v r) varMap
                      (rewrite_loop (alias_table m) (Formula m) 0 []),
       origin = None\<rparr>)"
    by (rule translate_body_table)
  show "translate_body vars m = translate_body vars' m"
    by (simp add: translate_body_eq)
next
  assume "i < length ms \<and> i < length ms' \<and> ms ! i = ms' ! i"
  then show "translate_loop vars ms [] ! i = translate_loop vars' ms' [] ! i"
    by (simp add: translate_loop_eq)
qed

theorem alias_table_per_metric_witness:
  "(1::nat) < length [\<lparr>LegacyName = ''m1'', Events = [\<lparr>Alias = ''a'', Name = ''X''\<rparr>], Constants = [], Formula = ''a''\<rparr>,
                      \<lparr>LegacyName = ''m2'', Events = [\<lparr>Alias = ''b'', Name = ''Y''\<rparr>], Constants = [], Formula = ''a + b''\<rparr>]
   \<and> (1::nat) < length [\<lparr>LegacyName = ''m0'', Events = [], Constants = [\<lparr>Alias = ''a'', Name = ''Z''\<rparr>], Formula = ''a''\<rparr>,
                      \<lparr>LegacyName = ''m2'', Events = [\<lparr>Alias = ''b'', Name = ''Y''\<rparr>], Constants = [], Formula = ''a + b''\<rparr>]
   \<and> translate_loop Map.empty
        [\<lparr>LegacyName = ''m1'', Events = [\<lparr>Alias = ''a'', Name = ''X''\<rparr>], Constants = [], Formula = ''a''\<rparr>,
         \<lparr>LegacyName = ''m2'', Events = [\<lparr>Alias = ''b'', Name = ''Y''\<rparr>], Constants = [], Formula = ''a + b''\<rparr>] [] ! 1
      = translate_loop Map.empty
        [\<lparr>LegacyName = ''m0'', Events = [], Constants = [\<lparr>Alias = ''a'', Name = ''Z''\<rparr>], Formula = ''a''\<rparr>,
         \<lparr>LegacyName = ''m2'', Events = [\<lparr>Alias = ''b'', Name = ''Y''\<rparr>], Constants = [], Formula = ''a + b''\<rparr>] [] ! 1
   \<and> translate_loop Map.empty
        [\<lparr>LegacyName = ''m1'', Events = [\<lparr>Alias = ''a'', Name = ''X''\<rparr>], Constants = [], Formula = ''a''\<rparr>,
         \<lparr>LegacyName = ''m2'', Events = [\<lparr>Alias = ''b'', Name = ''Y''\<rparr>], Constants = [], Formula = ''a + b''\<rparr>] []
      = [\<lparr>name = ''m1'', expression = ''[X]'', origin = None\<rparr>,
         \<lparr>name = ''m2'', expression = ''a + [Y]'', origin = None\<rparr>]"
proof -
  let ?A = "[\<lparr>LegacyName = ''m1'', Events = [\<lparr>Alias = ''a'', Name = ''X''\<rparr>], Constants = [], Formula = ''a''\<rparr>,
             \<lparr>LegacyName = ''m2'', Events = [\<lparr>Alias = ''b'', Name = ''Y''\<rparr>], Constants = [], Formula = ''a + b''\<rparr>]"
  let ?B = "[\<lparr>LegacyName = ''m0'', Events = [], Constants = [\<lparr>Alias = ''a'', Name = ''Z''\<rparr>], Formula = ''a''\<rparr>,
             \<lparr>LegacyName = ''m2'', Events = [\<lparr>Alias = ''b'', Name = ''Y''\<rparr>], Constants = [], Formula = ''a + b''\<rparr>]"
  have l1: "(1::nat) < length ?A" and l2: "(1::nat) < length ?B" and eq: "?A ! 1 = ?B ! 1"
    by simp_all
  from alias_table_per_metric [where i = 1 and ms = ?A and ms' = ?B and vars = Map.empty
      and vars' = Map.empty and m = "?A ! 1"] l1 l2 eq
  have e: "translate_loop Map.empty ?A [] ! 1 = translate_loop Map.empty ?B [] ! 1"
    by blast
  have v: "translate_loop Map.empty ?A []
      = [\<lparr>name = ''m1'', expression = ''[X]'', origin = None\<rparr>,
         \<lparr>name = ''m2'', expression = ''a + [Y]'', origin = None\<rparr>]"
    by code_simp
  from l1 l2 e v show ?thesis by blast
qed

subsection \<open>Reconciliation\<close>

text \<open>
  C2. The result of the reconciliation has one entry for each entry of \<open>usedMetrics\<close>, in
  the same order and with the same names: the entry at position \<open>i\<close> is the first entry
  of \<open>allMetrics\<close> whose name equals the name of the used entry at position \<open>i\<close> when
  there is one, and otherwise that used entry with \<open>origin\<close> set to \<open>perfspect\<close> and
  its other fields unchanged.
\<close>

theorem reconcile_result:
  "reconcile_loop allMetrics usedMetrics [] =
     map (\<lambda>m. case List.find (\<lambda>a. name a = name m) allMetrics of
                 Some a \<Rightarrow> a
               | None \<Rightarrow> m\<lparr>origin := Some ''perfspect''\<rparr>) usedMetrics
   \<and> length (reconcile_loop allMetrics usedMetrics []) = length usedMetrics
   \<and> map name (reconcile_loop allMetrics usedMetrics []) = map name usedMetrics
   \<and> (\<forall>i < length usedMetrics.
        reconcile_loop allMetrics usedMetrics [] ! i =
          (case List.find (\<lambda>a. name a = name (usedMetrics ! i)) allMetrics of
             Some a \<Rightarrow> a
           | None \<Rightarrow> (usedMetrics ! i)\<lparr>origin := Some ''perfspect''\<rparr>))"
proof (intro conjI allI impI)
  show "reconcile_loop allMetrics usedMetrics [] =
     map (\<lambda>m. case List.find (\<lambda>a. name a = name m) allMetrics of
                 Some a \<Rightarrow> a
               | None \<Rightarrow> m\<lparr>origin := Some ''perfspect''\<rparr>) usedMetrics"
    by (simp add: reconcile_loop_eq)
  show "length (reconcile_loop allMetrics usedMetrics []) = length usedMetrics"
    by (simp add: reconcile_loop_eq)
  show "map name (reconcile_loop allMetrics usedMetrics []) = map name usedMetrics"
    by (auto simp: reconcile_loop_eq dest: find_name split: option.splits)
next
  fix i assume "i < length usedMetrics"
  then show "reconcile_loop allMetrics usedMetrics [] ! i =
          (case List.find (\<lambda>a. name a = name (usedMetrics ! i)) allMetrics of
             Some a \<Rightarrow> a
           | None \<Rightarrow> (usedMetrics ! i)\<lparr>origin := Some ''perfspect''\<rparr>)"
    by (simp add: reconcile_loop_eq)
qed

theorem reconcile_result_witness:
  "reconcile_loop [\<lparr>name = ''m1'', expression = ''[X]'', origin = None\<rparr>]
      [\<lparr>name = ''m1'', expression = ''[OLD]'', origin = None\<rparr>,
       \<lparr>name = ''m2'', expression = ''[Y]'', origin = None\<rparr>] []
     = [\<lparr>name = ''m1'', expression = ''[X]'', origin = None\<rparr>,
        \<lparr>name = ''m2'', expression = ''[Y]'', origin = Some ''perfspect''\<rparr>]
   \<and> (1::nat) < length [\<lparr>name = ''m1'', expression = ''[OLD]'', origin = None\<rparr>,
                        \<lparr>name = ''m2'', expression = ''[Y]'', origin = None\<rparr>]
   \<and> reconcile_loop [\<lparr>name = ''m1'', expression = ''[X]'', origin = None\<rparr>]
      [\<lparr>name = ''m1'', expression = ''[OLD]'', origin = None\<rparr>,
       \<lparr>name = ''m2'', expression = ''[Y]'', origin = None\<rparr>] [] ! 1
     = \<lparr>name = ''m2'', expression = ''[Y]'', origin = Some ''perfspect''\<rparr>"
  using reconcile_result [of "[\<lparr>name = ''m1'', expression = ''[X]'', origin = None\<rparr>]"
      "[\<lparr>name = ''m1'', expression = ''[OLD]'', origin = None\<rparr>,
       \<lparr>name = ''m2'', expression = ''[Y]'', origin = None\<rparr>]"]
  by simp

subsection \<open>A document without metrics\<close>

text \<open>
  C9. When the input document has no \<open>Metrics\<close> field, the translation prints the
  diagnostic and returns: nothing else is printed, no file is written, and the file at
  the output path, if there is one, is as it was.
\<close>

theorem translate_missing_metrics:
  assumes "files w inFile = Some (PerfmonFile mf)" and "Metrics mf = None"
  shows "translate_perfmon_metrics_to_perfspect inFile outFile w
           = Inr (w\<lparr>printed := printed w @ [NoMetricsFound inFile]\<rparr>)
         \<and> (\<exists>w'. translate_perfmon_metrics_to_perfspect inFile outFile w = Inr w'
                \<and> files w' = files w \<and> files w' outFile = files w outFile
                \<and> printed w' = printed w @ [NoMetricsFound inFile])"
  using assms by (simp add: translate_perfmon_metrics_to_perfspect_def)

theorem translate_missing_metrics_witness:
  "files \<lparr>files = [''in.json'' \<mapsto> PerfmonFile \<lparr>Metrics = None\<rparr>,
                   ''out.json'' \<mapsto> MetricsFile [\<lparr>name = ''old'', expression = ''[X]'', origin = None\<rparr>]],
          printed = []\<rparr> ''in.json'' = Some (PerfmonFile \<lparr>Metrics = None\<rparr>)
   \<and> Metrics \<lparr>Metrics = None\<rparr> = None
   \<and> translate_perfmon_metrics_to_perfspect ''in.json'' ''out.json''
        \<lparr>files = [''in.json'' \<mapsto> PerfmonFile \<lparr>Metrics = None\<rparr>,
                   ''out.json'' \<mapsto> MetricsFile [\<lparr>name = ''old'', expression = ''[X]'', origin = None\<rparr>]],
          printed = []\<rparr>
      = Inr \<lparr>files = [''in.json'' \<mapsto> PerfmonFile \<lparr>Metrics = None\<rparr>,
                   ''out.json'' \<mapsto> MetricsFile [\<lparr>name = ''old'', expression = ''[X]'', origin = None\<rparr>]],
          printed = [NoMetricsFound ''in.json'']\<rparr>"
proof -
  have a: "files \<lparr>files = [''in.json'' \<mapsto> PerfmonFile \<lparr>Metrics = None\<rparr>,
                   ''out.json'' \<mapsto> MetricsFile [\<lparr>name = ''old'', expression = ''[X]'', origin = None\<rparr>]],
          printed = []\<rparr> ''in.json'' = Some (PerfmonFile \<lparr>Metrics = None\<rparr>)" by simp
  have b: "Metrics \<lparr>Metrics = None\<rparr> = None" by simp
  from translate_missing_metrics [OF a b, of "''out.json''"] a b show ?thesis by simp
qed

end
